theory Spec2Isabelle
  imports Main "HOL-Library.Word" "HOL-Library.Log_Nat"
begin

unbundle bit_operations_syntax

section \<open>Text primitives of the Python runtime\<close>

text \<open>
  Text handled by the classifier and the segmenter is a \<^typ>\<open>string\<close>: a list of
  characters with code points 0 to 255. On that range the tables below are those of
  Python's \<^verbatim>\<open>str.isspace\<close> (which \<^verbatim>\<open>str.strip\<close>, \<^verbatim>\<open>str.split\<close> and the regular
  expression class \<^verbatim>\<open>\s\<close> all share) and of the class \<^verbatim>\<open>\w\<close>.
\<close>

definition is_space :: "char \<Rightarrow> bool" where
  "is_space c = (let n = (of_char c :: nat) in
     (9 \<le> n \<and> n \<le> 13) \<or> (28 \<le> n \<and> n \<le> 32) \<or> n = 133 \<or> n = 160)"

definition is_word :: "char \<Rightarrow> bool" where
  "is_word c = (let n = (of_char c :: nat) in
     (48 \<le> n \<and> n \<le> 57) \<or> (65 \<le> n \<and> n \<le> 90) \<or> n = 95 \<or> (97 \<le> n \<and> n \<le> 122) \<or>
     n = 170 \<or> n = 178 \<or> n = 179 \<or> n = 181 \<or> n = 185 \<or> n = 186 \<or>
     (188 \<le> n \<and> n \<le> 190) \<or> (192 \<le> n \<and> n \<le> 214) \<or> (216 \<le> n \<and> n \<le> 246) \<or> 248 \<le> n)"

text \<open>
  Case folding as the flag \<^verbatim>\<open>re.IGNORECASE\<close> applies it to the literals of this program:
  every literal of every pattern is ASCII, and among the code points 0 to 255 an ASCII
  letter is matched by its two ASCII cases only.
\<close>

definition lower :: "char \<Rightarrow> char" where
  "lower c = (let n = (of_char c :: nat) in
     if 65 \<le> n \<and> n \<le> 90 then char_of (n + 32) else c)"

definition chr_eq :: "bool \<Rightarrow> char \<Rightarrow> char \<Rightarrow> bool" where
  "chr_eq ic a c = (if ic then lower a = lower c else a = c)"

text \<open>\<^verbatim>\<open>s.strip()\<close>: leading and trailing whitespace removed.\<close>

definition strip :: "string \<Rightarrow> string" where
  "strip s = rev (dropWhile is_space (rev (dropWhile is_space s)))"

text \<open>
  \<^verbatim>\<open>s.split()\<close> with no argument: the maximal runs of characters that are not whitespace.
  The first argument is the token being read.
\<close>

fun split_ws :: "string \<Rightarrow> string \<Rightarrow> string list" where
  "split_ws cur [] = (if cur = [] then [] else [cur])"
| "split_ws cur (c # cs) =
     (if is_space c then (if cur = [] then split_ws [] cs else cur # split_ws [] cs)
      else split_ws (cur @ [c]) cs)"

definition str_split :: "string \<Rightarrow> string list" where
  "str_split s = split_ws [] s"


section \<open>The regular expressions of the program\<close>

text \<open>
  The fragment of Python's \<^verbatim>\<open>re\<close> syntax that the patterns of \<^verbatim>\<open>processor.py\<close> use:
  literals, \<^verbatim>\<open>\s\<close> with the greedy repetitions \<^verbatim>\<open>\s*\<close> and \<^verbatim>\<open>\s+\<close>, sequence, alternation,
  the word boundary \<^verbatim>\<open>\b\<close> and a one-character look-behind \<^verbatim>\<open>(?<=[...])\<close>.
\<close>

datatype rx =
    Fail
  | Lit string
  | SpaceStar
  | SpacePlus
  | Seq rx rx
  | Alt rx rx
  | WordB
  | After string

text \<open>
  A position in the subject is the character before it (if any) and the text after it.
  The matcher returns the positions at which a match starting here can end, in the order
  in which the backtracking engine tries them: the first one is the match that
  \<^verbatim>\<open>search\<close>, \<^verbatim>\<open>findall\<close> and \<^verbatim>\<open>split\<close> report.
\<close>

type_synonym pos = "char option \<times> string"

fun spaces_from :: "char option \<Rightarrow> string \<Rightarrow> pos list" where
  "spaces_from p [] = [(p, [])]"
| "spaces_from p (c # cs) =
     (if is_space c then spaces_from (Some c) cs @ [(p, c # cs)] else [(p, c # cs)])"

fun lit_match :: "bool \<Rightarrow> string \<Rightarrow> pos \<Rightarrow> pos option" where
  "lit_match ic [] st = Some st"
| "lit_match ic (a # as) (p, []) = None"
| "lit_match ic (a # as) (p, c # cs) =
     (if chr_eq ic a c then lit_match ic as (Some c, cs) else None)"

definition word_at :: "char option \<Rightarrow> bool" where
  "word_at p = (case p of None \<Rightarrow> False | Some c \<Rightarrow> is_word c)"

definition at_boundary :: "pos \<Rightarrow> bool" where
  "at_boundary st = (word_at (fst st) \<noteq> word_at (case snd st of [] \<Rightarrow> None | c # cs \<Rightarrow> Some c))"

fun rx_match :: "bool \<Rightarrow> rx \<Rightarrow> pos \<Rightarrow> pos list" where
  "rx_match ic Fail st = []"
| "rx_match ic (Lit w) st = (case lit_match ic w st of None \<Rightarrow> [] | Some st' \<Rightarrow> [st'])"
| "rx_match ic SpaceStar (p, s) = spaces_from p s"
| "rx_match ic SpacePlus (p, []) = []"
| "rx_match ic SpacePlus (p, c # cs) = (if is_space c then spaces_from (Some c) cs else [])"
| "rx_match ic (Seq r1 r2) st = concat (map (rx_match ic r2) (rx_match ic r1 st))"
| "rx_match ic (Alt r1 r2) st = rx_match ic r1 st @ rx_match ic r2 st"
| "rx_match ic WordB st = (if at_boundary st then [st] else [])"
| "rx_match ic (After cs) (p, s) =
     (case p of None \<Rightarrow> [] | Some c \<Rightarrow> if c \<in> set cs then [(p, s)] else [])"

text \<open>\<^verbatim>\<open>pattern.search(text)\<close> as a truth value: some position starts a match.\<close>

fun search_from :: "bool \<Rightarrow> rx \<Rightarrow> char option \<Rightarrow> string \<Rightarrow> bool" where
  "search_from ic r p [] = (rx_match ic r (p, []) \<noteq> [])"
| "search_from ic r p (c # cs) =
     (if rx_match ic r (p, c # cs) \<noteq> [] then True else search_from ic r (Some c) cs)"

definition re_search :: "bool \<Rightarrow> rx \<Rightarrow> string \<Rightarrow> bool" where
  "re_search ic r s = search_from ic r None s"

text \<open>
  The scanner behind \<^verbatim>\<open>findall\<close> and \<^verbatim>\<open>split\<close> walks the subject from left to right; at
  each position outside the previous match it takes the first match, if there is one, and
  resumes where that match ends. The counter is the number of characters of the current
  match still to be passed. Every pattern of this program consumes at least one character,
  so a match of length zero is treated as no match.
\<close>

definition match_len :: "bool \<Rightarrow> rx \<Rightarrow> pos \<Rightarrow> nat" where
  "match_len ic r st =
     (case rx_match ic r st of [] \<Rightarrow> 0 | st' # rest \<Rightarrow> length (snd st) - length (snd st'))"

fun count_from :: "bool \<Rightarrow> rx \<Rightarrow> nat \<Rightarrow> char option \<Rightarrow> string \<Rightarrow> nat" where
  "count_from ic r k p [] = 0"
| "count_from ic r (Suc k) p (c # cs) = count_from ic r k (Some c) cs"
| "count_from ic r 0 p (c # cs) =
     (let n = match_len ic r (p, c # cs) in
      if n = 0 then count_from ic r 0 (Some c) cs
      else Suc (count_from ic r (n - 1) (Some c) cs))"

text \<open>\<^verbatim>\<open>len(re.findall(pattern, text))\<close>.\<close>

definition findall_count :: "bool \<Rightarrow> rx \<Rightarrow> string \<Rightarrow> nat" where
  "findall_count ic r s = count_from ic r 0 None s"



fun alts :: "rx list \<Rightarrow> rx" where
  "alts [] = Fail"
| "alts [r] = r"
| "alts (r # rs) = Alt r (alts rs)"

fun seqs :: "rx list \<Rightarrow> rx" where
  "seqs [] = Lit []"
| "seqs [r] = r"
| "seqs (r # rs) = Seq r (seqs rs)"

definition any_of :: "string list \<Rightarrow> rx" where
  "any_of ws = alts (map Lit ws)"

section \<open>The segmenter: \<^verbatim>\<open>ThoughtProcessor._split_into_segments\<close>\<close>





section \<open>Floating-point arithmetic of the scores\<close>

text \<open>
  Python's \<^verbatim>\<open>float\<close> is IEEE binary64. A float is modelled by the rational number it
  denotes, and every operation rounds its exact result to the nearest number with a 53-bit
  significand, ties to even. The exponent range is not bounded: the scores below leave
  the range of binary64 only for segments of more than \<open>2 ^ 1000\<close> tokens.
\<close>

definition pow2 :: "int \<Rightarrow> rat" where
  "pow2 e = (if 0 \<le> e then 2 ^ nat e else 1 / 2 ^ nat (- e))"

definition round_half_even :: "rat \<Rightarrow> int" where
  "round_half_even q = (let f = \<lfloor>q\<rfloor>; d = q - of_int f in
     if d < 1 / 2 then f else if 1 / 2 < d then f + 1 else if even f then f else f + 1)"

text \<open>The exponent \<open>e\<close> with \<open>2 ^ e \<le> x < 2 ^ (e + 1)\<close>, for positive \<open>x\<close>.\<close>

definition binade :: "rat \<Rightarrow> int" where
  "binade x = (let (a, b) = quotient_of x; k = bitlen a - bitlen b in
     if pow2 k \<le> x then k else k - 1)"

definition fl :: "rat \<Rightarrow> rat" where
  "fl x = (if x \<le> 0 then 0 else
     let u = pow2 (binade x - 52) in of_int (round_half_even (x / u)) * u)"

text \<open>\<^verbatim>\<open>n * x\<close> and \<^verbatim>\<open>n / x\<close> for an \<^verbatim>\<open>int\<close> \<open>n \<ge> 0\<close> and a \<^verbatim>\<open>float\<close> \<open>x\<close>: the integer is converted first.\<close>

definition int_times_float :: "nat \<Rightarrow> rat \<Rightarrow> rat" where
  "int_times_float n x = fl (fl (of_nat n) * x)"

definition int_div_float :: "nat \<Rightarrow> rat \<Rightarrow> rat" where
  "int_div_float n x = fl (fl (of_nat n) / x)"

section \<open>The classifier: \<^verbatim>\<open>ThoughtProcessor._is_likely_private\<close>\<close>

text \<open>The eight patterns of \<^verbatim>\<open>PRIVACY_INDICATORS\<close>; each carries the flag \<^verbatim>\<open>(?i)\<close>.\<close>

definition PRIVACY_INDICATORS :: "rx list" where
  "PRIVACY_INDICATORS =
   [any_of [''private'', ''secret'', ''confidential'', ''personal'', ''sensitive''],
    seqs [any_of [''don't'', ''do not'', ''shouldn't'', ''should not'', ''wouldn't'', ''would not''],
          SpacePlus, any_of [''share'', ''tell'', ''reveal'', ''disclose'']],
    seqs [any_of [''between'', ''just'', ''only''], SpacePlus,
          any_of [''us'', ''ourselves'', ''me and you'']],
    seqs [Lit ''keep'', SpacePlus, Lit ''this'', SpacePlus,
          alts [seqs [Lit ''to'', SpacePlus, Lit ''yourself''],
                Lit ''private'', Lit ''secret'', Lit ''confidential'']],
    seqs [any_of [''internal'', ''introspective'', ''inner''], SpacePlus,
          any_of [''thought'', ''reflection'', ''monologue'', ''dialogue'']],
    seqs [any_of [''nobody'', ''no one''], SpacePlus, Lit ''should'', SpacePlus,
          any_of [''know'', ''hear'', ''see'', ''read'']],
    seqs [Lit ''if'', SpacePlus, Lit ''I'm'', SpacePlus, Lit ''being'', SpacePlus, Lit ''honest''],
    seqs [Lit ''I'', SpacePlus, any_of [''wouldn't'', ''won't'', ''can't'', ''cannot'', ''don't''],
          SpacePlus, any_of [''say'', ''admit'', ''acknowledge''], SpacePlus, Lit ''this'',
          SpacePlus, any_of [''publicly'', ''openly'']]]"

text \<open>A pattern of the form \<^verbatim>\<open>\b(w1|...|wn)\b\<close>.\<close>

definition whole_word :: "string list \<Rightarrow> rx" where
  "whole_word ws = seqs [WordB, any_of ws, WordB]"

definition FIRST_PERSON :: rx where
  "FIRST_PERSON = whole_word [''I'', ''me'', ''my'', ''mine'', ''myself'']"

definition THINKING_VERBS :: rx where
  "THINKING_VERBS =
     whole_word [''think'', ''feel'', ''believe'', ''wonder'', ''question'', ''doubt'', ''reflect'']"

definition UNCERTAINTY :: rx where
  "UNCERTAINTY =
     whole_word [''maybe'', ''perhaps'', ''possibly'', ''might'', ''could be'', ''uncertain'', ''unsure'']"

definition word_count :: "string \<Rightarrow> nat" where
  "word_count text = length (str_split text)"

definition introspection_indicators :: "string \<Rightarrow> nat" where
  "introspection_indicators text =
     (let first_person = findall_count True FIRST_PERSON text;
          thinking_verbs = findall_count True THINKING_VERBS text;
          uncertainty = findall_count True UNCERTAINTY text
      in first_person + thinking_verbs + uncertainty)"

definition calculate_introspection_score :: "string \<Rightarrow> rat" where
  "calculate_introspection_score text =
     (if word_count text = 0 then 0
      else min 1 (int_div_float (introspection_indicators text)
                    (int_times_float (word_count text) (fl (3 / 10)))))"

definition sensitive_topics :: "rx list" where
  "sensitive_topics =
   [whole_word [''controversial'', ''controversy'', ''contentious'', ''dispute'', ''disagreement''],
    whole_word [''personal'', ''private'', ''intimate'', ''secret''],
    whole_word [''worry'', ''concern'', ''afraid'', ''fear'', ''anxious'', ''anxiety''],
    whole_word [''critique'', ''criticism'', ''critical'', ''flaw'', ''weakness'', ''shortcoming'']]"

definition CAUTION_PHRASES :: rx where
  "CAUTION_PHRASES =
     whole_word [''careful'', ''cautious'', ''warning'', ''between us'', ''not for'', ''hesitant'']"

definition sensitivity_indicators :: "string \<Rightarrow> nat" where
  "sensitivity_indicators text =
     (let topic_mentions = sum_list (map (\<lambda>pattern. findall_count True pattern text) sensitive_topics);
          caution_phrases = findall_count True CAUTION_PHRASES text
      in topic_mentions + caution_phrases * 2)"

definition calculate_sensitivity_score :: "string \<Rightarrow> rat" where
  "calculate_sensitivity_score text =
     (if word_count text = 0 then 0
      else min 1 (int_div_float (sensitivity_indicators text)
                    (int_times_float (word_count text) (fl (25 / 100)))))"

text \<open>The loop over the compiled patterns, returning at the first one that is found.\<close>

fun matches_indicator :: "rx list \<Rightarrow> string \<Rightarrow> bool" where
  "matches_indicator [] text = False"
| "matches_indicator (pattern # rest) text =
     (if re_search True pattern text then True else matches_indicator rest text)"

definition INTROSPECTION_THRESHOLD :: rat where
  "INTROSPECTION_THRESHOLD = fl (7 / 10)"

definition SENSITIVITY_THRESHOLD :: rat where
  "SENSITIVITY_THRESHOLD = fl (8 / 10)"

definition is_likely_private :: "string \<Rightarrow> bool" where
  "is_likely_private text =
     (if matches_indicator PRIVACY_INDICATORS text then True
      else if calculate_introspection_score text > INTROSPECTION_THRESHOLD then True
      else if calculate_sensitivity_score text > SENSITIVITY_THRESHOLD then True
      else False)"

section \<open>\<^verbatim>\<open>ThoughtProcessor.process_output\<close>\<close>



section \<open>Bytes, text encoding and randomness\<close>

type_synonym byte = "8 word"

text \<open>The exceptions that the modelled code can raise.\<close>

datatype error = ValueError | UnicodeEncodeError | BinasciiError

text \<open>
  The argument of \<^verbatim>\<open>encrypt\<close> is either a \<^verbatim>\<open>str\<close> or a \<^verbatim>\<open>bytes\<close> object. Here a \<^verbatim>\<open>str\<close> is the
  list of its code points, so that every Python string is covered, and
  \<^verbatim>\<open>s.encode('utf-8')\<close> is the strict encoder: it has no output for a surrogate code point.
\<close>

datatype data = Str "nat list" | Bytes "byte list"

definition utf8_char :: "nat \<Rightarrow> byte list option" where
  "utf8_char c =
     (if c < 0x80 then Some [of_nat c]
      else if c < 0x800 then Some [of_nat (0xC0 + c div 64), of_nat (0x80 + c mod 64)]
      else if 0xD800 \<le> c \<and> c \<le> 0xDFFF then None
      else if c < 0x10000 then
        Some [of_nat (0xE0 + c div 4096), of_nat (0x80 + c div 64 mod 64), of_nat (0x80 + c mod 64)]
      else if c < 0x110000 then
        Some [of_nat (0xF0 + c div 262144), of_nat (0x80 + c div 4096 mod 64),
              of_nat (0x80 + c div 64 mod 64), of_nat (0x80 + c mod 64)]
      else None)"

fun utf8_encode :: "nat list \<Rightarrow> byte list option" where
  "utf8_encode [] = Some []"
| "utf8_encode (c # cs) =
     (case utf8_char c of None \<Rightarrow> None
      | Some bs \<Rightarrow> (case utf8_encode cs of None \<Rightarrow> None | Some rest \<Rightarrow> Some (bs @ rest)))"

text \<open>The code points of a segment, as the orchestrator hands it to \<^verbatim>\<open>encrypt\<close>.\<close>

definition code_points :: "string \<Rightarrow> nat list" where
  "code_points s = map of_char s"

section \<open>The world outside the process\<close>

text \<open>
  A reading of the wall clock: the fields of \<^verbatim>\<open>datetime.now()\<close> and the value of
  \<^verbatim>\<open>time.time()\<close>.
\<close>

record instant =
  year :: nat
  month :: nat
  day :: nat
  hour :: nat
  minute :: nat
  second :: nat
  epoch :: rat

text \<open>
  The key file (read and written as text), the files written so far (newest first, so
  that the first binding of a path is its current content), the bytes that \<^verbatim>\<open>os.urandom\<close>
  will deliver, and the readings that the clock will give, each with the number already
  consumed. Writing to the store always succeeds in this model.
\<close>

record world =
  key_file :: "string option"
  files :: "(string \<times> byte list) list"
  entropy :: "nat \<Rightarrow> byte"
  drawn :: nat
  clock :: "nat \<Rightarrow> instant"
  reads :: nat

definition urandom :: "nat \<Rightarrow> world \<Rightarrow> byte list \<times> world" where
  "urandom n w = (map (entropy w) [drawn w ..< drawn w + n], w\<lparr>drawn := drawn w + n\<rparr>)"

definition datetime_now :: "world \<Rightarrow> instant \<times> world" where
  "datetime_now w = (clock w (reads w), w\<lparr>reads := reads w + 1\<rparr>)"


section \<open>Base64, as \<^verbatim>\<open>base64.b64decode\<close> and \<^verbatim>\<open>base64.b64encode\<close>\<close>

definition b64_value :: "char \<Rightarrow> nat option" where
  "b64_value c = (let n = (of_char c :: nat) in
     if 65 \<le> n \<and> n \<le> 90 then Some (n - 65)
     else if 97 \<le> n \<and> n \<le> 122 then Some (n - 71)
     else if 48 \<le> n \<and> n \<le> 57 then Some (n + 4)
     else if n = 43 then Some 62
     else if n = 47 then Some 63
     else None)"

definition emit :: "nat \<Rightarrow> error + byte list \<Rightarrow> error + byte list" where
  "emit b r = (case r of Inl e \<Rightarrow> Inl e | Inr bs \<Rightarrow> Inr (of_nat b # bs))"

text \<open>
  The decoding loop of \<^verbatim>\<open>binascii.a2b_base64\<close> in its default, non-strict mode: characters
  outside the alphabet are skipped, a pad character ends the input once the current
  quad is complete, and input that stops inside a quad is an error.
\<close>

fun a2b_base64 :: "nat \<Rightarrow> nat \<Rightarrow> nat \<Rightarrow> string \<Rightarrow> error + byte list" where
  "a2b_base64 quad_pos leftchar pads [] = (if quad_pos \<noteq> 0 then Inl BinasciiError else Inr [])"
| "a2b_base64 quad_pos leftchar pads (c # cs) =
     (if c = CHR ''='' then
        (if 2 \<le> quad_pos \<and> 4 \<le> quad_pos + (pads + 1) then Inr []
         else a2b_base64 quad_pos leftchar (if 2 \<le> quad_pos then pads + 1 else pads) cs)
      else case b64_value c of
        None \<Rightarrow> a2b_base64 quad_pos leftchar pads cs
      | Some v \<Rightarrow>
          (if quad_pos = 0 then a2b_base64 1 v 0 cs
           else if quad_pos = 1 then emit (leftchar * 4 + v div 16) (a2b_base64 2 (v mod 16) 0 cs)
           else if quad_pos = 2 then emit (leftchar * 16 + v div 4) (a2b_base64 3 (v mod 4) 0 cs)
           else emit (leftchar * 64 + v) (a2b_base64 0 0 0 cs)))"

definition b64decode :: "string \<Rightarrow> error + byte list" where
  "b64decode s =
     (if list_ex (\<lambda>c. 128 \<le> (of_char c :: nat)) s then Inl ValueError else a2b_base64 0 0 0 s)"

text \<open>The character of a 6-bit value in the alphabet \<^verbatim>\<open>A-Z a-z 0-9 + /\<close>.\<close>

definition b64_char :: "nat \<Rightarrow> char" where
  "b64_char n =
     (if n < 26 then char_of (65 + n) else if n < 52 then char_of (71 + n)
      else if n < 62 then char_of (n - 4) else if n = 62 then CHR ''+'' else CHR ''/'')"

fun b64encode :: "byte list \<Rightarrow> string" where
  "b64encode [] = []"
| "b64encode [a] = [b64_char (unat a div 4), b64_char (unat a mod 4 * 16), CHR ''='', CHR ''='']"
| "b64encode [a, b] =
     [b64_char (unat a div 4), b64_char (unat a mod 4 * 16 + unat b div 16),
      b64_char (unat b mod 16 * 4), CHR ''='']"
| "b64encode (a # b # c # rest) =
     [b64_char (unat a div 4), b64_char (unat a mod 4 * 16 + unat b div 16),
      b64_char (unat b mod 16 * 4 + unat c div 64), b64_char (unat c mod 64)] @ b64encode rest"

section \<open>The key provider: \<^verbatim>\<open>EncryptionManager._load_or_create_key\<close>\<close>

definition KEY_SIZE :: nat where
  "KEY_SIZE = 32"

definition load_or_create_key :: "world \<Rightarrow> error + (byte list \<times> world)" where
  "load_or_create_key w =
     (case key_file w of
        Some content \<Rightarrow>
          (let key_base64 = strip content in
           case b64decode key_base64 of Inl e \<Rightarrow> Inl e | Inr k \<Rightarrow> Inr (k, w))
      | None \<Rightarrow>
          (let (k, w1) = urandom KEY_SIZE w in
           Inr (k, w1\<lparr>key_file := Some (b64encode k)\<rparr>)))"

section \<open>The cipher: \<^verbatim>\<open>EncryptionManager.encrypt\<close>\<close>

text \<open>
  The AES block transformation belongs to the \<^verbatim>\<open>cryptography\<close> library; it is a parameter
  of the model, a function from a key and a 16-byte block to a block.
\<close>

type_synonym cipher = "byte list \<Rightarrow> byte list \<Rightarrow> byte list"

definition BLOCK :: nat where
  "BLOCK = 16"

text \<open>\<^verbatim>\<open>padding.PKCS7(128).padder()\<close>: between 1 and 16 bytes, each holding their number.\<close>

definition pkcs7_pad :: "byte list \<Rightarrow> byte list" where
  "pkcs7_pad bs = (let n = BLOCK - length bs mod BLOCK in bs @ replicate n (of_nat n))"

fun chunks :: "nat \<Rightarrow> 'a list \<Rightarrow> 'a list list" where
  "chunks n xs = (if n = 0 \<or> xs = [] then [] else take n xs # chunks n (drop n xs))"

declare chunks.simps [simp del]

definition xor_bytes :: "byte list \<Rightarrow> byte list \<Rightarrow> byte list" where
  "xor_bytes a b = map2 (XOR) a b"

text \<open>CBC mode: each block is combined with the previous ciphertext block, the first with the IV.\<close>

fun cbc_encrypt :: "cipher \<Rightarrow> byte list \<Rightarrow> byte list \<Rightarrow> byte list list \<Rightarrow> byte list" where
  "cbc_encrypt E k prev [] = []"
| "cbc_encrypt E k prev (b # bs) = (let c = E k (xor_bytes b prev) in c @ cbc_encrypt E k c bs)"

text \<open>The blob for a given IV: the IV followed by the CBC encryption of the padded payload.\<close>

definition cbc_blob :: "cipher \<Rightarrow> byte list \<Rightarrow> byte list \<Rightarrow> byte list \<Rightarrow> byte list" where
  "cbc_blob E k iv payload = iv @ cbc_encrypt E k iv (chunks BLOCK (pkcs7_pad payload))"

text \<open>
  \<^verbatim>\<open>encrypt\<close>: a string is encoded first; the IV is drawn; \<^verbatim>\<open>algorithms.AES(self.key)\<close>
  with \<^verbatim>\<open>modes.CBC\<close> accepts keys of 16, 24 and 32 bytes and raises \<^verbatim>\<open>ValueError\<close> for any other.
\<close>

definition encrypt :: "cipher \<Rightarrow> byte list \<Rightarrow> data \<Rightarrow> world \<Rightarrow> error + (byte list \<times> world)" where
  "encrypt E k d w =
     (case (case d of Str s \<Rightarrow> utf8_encode s | Bytes b \<Rightarrow> Some b) of
        None \<Rightarrow> Inl UnicodeEncodeError
      | Some payload \<Rightarrow>
          (let (iv, w1) = urandom 16 w in
           if length k \<notin> {16, 24, 32} then Inl ValueError
           else
             (let padded_data = pkcs7_pad payload;
                  encrypted_data = cbc_encrypt E k iv (chunks BLOCK padded_data)
              in Inr (iv @ encrypted_data, w1))))"

text \<open>
  Modelled from the spec: decryption, which the repository does not implement. The spec
  describes it as the inverse of \<^verbatim>\<open>encrypt\<close>: strip the first 16 bytes as the IV, decrypt the
  remainder in CBC mode, strip the padding. \<open>D\<close> is the inverse block transformation; a
  padding that is not well formed gives no result.
\<close>

fun cbc_decrypt :: "cipher \<Rightarrow> byte list \<Rightarrow> byte list \<Rightarrow> byte list list \<Rightarrow> byte list" where
  "cbc_decrypt D k prev [] = []"
| "cbc_decrypt D k prev (c # cs) = xor_bytes (D k c) prev @ cbc_decrypt D k c cs"

definition pkcs7_unpad :: "byte list \<Rightarrow> byte list option" where
  "pkcs7_unpad bs =
     (if bs = [] \<or> length bs mod BLOCK \<noteq> 0 then None
      else let n = unat (last bs) in
        if n = 0 \<or> BLOCK < n \<or> drop (length bs - n) bs \<noteq> replicate n (last bs) then None
        else Some (take (length bs - n) bs))"

definition decrypt :: "cipher \<Rightarrow> byte list \<Rightarrow> byte list \<Rightarrow> byte list option" where
  "decrypt D k blob =
     (let iv = take 16 blob; ciphertext = drop 16 blob
      in pkcs7_unpad (cbc_decrypt D k iv (chunks BLOCK ciphertext)))"

text \<open>What the theorems ask of the block transformation and of its inverse.\<close>

definition block_preserving :: "cipher \<Rightarrow> bool" where
  "block_preserving E = (\<forall>k b. length b = BLOCK \<longrightarrow> length (E k b) = BLOCK)"

definition block_inverse :: "cipher \<Rightarrow> cipher \<Rightarrow> bool" where
  "block_inverse E D = (\<forall>k b. length b = BLOCK \<longrightarrow> D k (E k b) = b)"

text \<open>A stand-in block transformation for the concrete instances below: it is its own inverse.\<close>

definition xor_cipher :: cipher where
  "xor_cipher k b = xor_bytes b (take BLOCK (k @ replicate BLOCK 0))"

section \<open>The store: \<^verbatim>\<open>StorageManager\<close>\<close>

definition PRIVATE_DIR :: string where
  "PRIVATE_DIR = ''private''"

definition digit :: "nat \<Rightarrow> char" where
  "digit n = ''0123456789'' ! n"

fun decimal :: "nat \<Rightarrow> string" where
  "decimal n = (if n < 10 then [digit n] else decimal (n div 10) @ [digit (n mod 10)])"

declare decimal.simps [simp del]

definition two_digits :: "nat \<Rightarrow> string" where
  "two_digits n = (if n < 10 then CHR ''0'' # decimal n else decimal n)"

text \<open>\<^verbatim>\<open>strftime("%Y%m%d%H%M%S")\<close>; the year is printed without padding.\<close>

definition strftime :: "instant \<Rightarrow> string" where
  "strftime t = decimal (year t) @ two_digits (month t) @ two_digits (day t) @
     two_digits (hour t) @ two_digits (minute t) @ two_digits (second t)"

definition generate_filename :: "world \<Rightarrow> string \<times> world" where
  "generate_filename w =
     (let (now, w1) = datetime_now w; timestamp = strftime now
      in (''private_thought_'' @ timestamp @ ''.enc'', w1))"

definition save_encrypted_thought :: "byte list \<Rightarrow> world \<Rightarrow> string \<times> world" where
  "save_encrypted_thought encrypted_data w =
     (let (filename, w1) = generate_filename w;
          filepath = PRIVATE_DIR @ ''/'' @ filename
      in (filepath, w1\<lparr>files := (filepath, encrypted_data) # files w1\<rparr>))"

text \<open>\<^verbatim>\<open>Path(PRIVATE_DIR).glob("*.enc")\<close>: the entries of the directory whose name ends in \<^verbatim>\<open>.enc\<close>.\<close>

definition enc_in_private :: "string \<Rightarrow> bool" where
  "enc_in_private p =
     (let d = PRIVATE_DIR @ ''/''; name = drop (length d) p in
      take (length d) p = d \<and> CHR ''/'' \<notin> set name \<and> 4 \<le> length name \<and>
      drop (length name - 4) name = ''.enc'')"

definition get_saved_files :: "world \<Rightarrow> string list" where
  "get_saved_files w = remdups (filter enc_in_private (map fst (files w)))"

text \<open>The fields of a valid \<^verbatim>\<open>datetime\<close> whose year has four digits.\<close>

definition four_digit_year :: "instant \<Rightarrow> bool" where
  "four_digit_year t = (1000 \<le> year t \<and> year t \<le> 9999 \<and> 1 \<le> month t \<and> month t \<le> 12 \<and>
     1 \<le> day t \<and> day t \<le> 31 \<and> hour t < 24 \<and> minute t < 60 \<and> second t < 60)"

section \<open>The orchestrator: \<^verbatim>\<open>SecretAgent\<close>\<close>


record thought_metadata =
  thought_id :: nat
  timestamp :: rat
  filepath :: string
  size_bytes :: nat
  encrypted :: bool





text \<open>Concrete surroundings for the instances below.\<close>

definition noon :: instant where
  "noon = \<lparr>year = 2024, month = 5, day = 17, hour = 12, minute = 0, second = 0, epoch = 1715947200\<rparr>"

definition quiet_world :: world where
  "quiet_world = \<lparr>key_file = None, files = [], entropy = (\<lambda>n. of_nat n), drawn = 0,
     clock = (\<lambda>n. noon), reads = 0\<rparr>"

definition short_key_world :: world where
  "short_key_world = quiet_world\<lparr>key_file := Some ''AAAA''\<rparr>"

definition zero_key :: "byte list" where
  "zero_key = replicate 32 0"

section \<open>Notions used in the statements and proofs\<close>

text \<open>The characters of a text that are not whitespace, in order.\<close>

definition non_space :: "string \<Rightarrow> string" where
  "non_space s = filter (\<lambda>c. \<not> is_space c) s"


text \<open>
  The number of whitespace-delimited tokens of a text: the number of positions at which
  a character that is not whitespace follows whitespace or starts the text. The flag
  tells whether the previous character belongs to a token.
\<close>

fun count_tokens :: "bool \<Rightarrow> string \<Rightarrow> nat" where
  "count_tokens inside [] = 0"
| "count_tokens inside (c # cs) =
     (if is_space c then count_tokens False cs
      else (if inside then 0 else 1) + count_tokens True cs)"








section \<open>The segmenter keeps the text\<close>

lemma non_space_simps [simp]:
  "non_space [] = []"
  "non_space (c # cs) = (if is_space c then non_space cs else c # non_space cs)"
  "non_space (a @ b) = non_space a @ non_space b"
  by (simp_all add: non_space_def)






lemma non_space_spaces: "list_all is_space d \<Longrightarrow> non_space d = []"
  by (induction d) auto




















section \<open>The classifier\<close>

lemma matches_indicator_iff:
  "matches_indicator ps text \<longleftrightarrow> (\<exists>p \<in> set ps. re_search True p text)"
  by (induction ps) auto

lemma split_ws_count:
  "length (split_ws cur s) = (if cur = [] then 0 else 1) + count_tokens (cur \<noteq> []) s"
  by (induction s arbitrary: cur) auto

lemma word_count_tokens: "word_count s = count_tokens False s"
  by (simp add: word_count_def str_split_def split_ws_count)

lemma count_tokens_pos: "\<not> is_space c \<Longrightarrow> 0 < count_tokens False (c # cs)"
  by simp

lemma threshold_values:
  "INTROSPECTION_THRESHOLD = 3152519739159347 / 4503599627370496"
  "SENSITIVITY_THRESHOLD = 3602879701896397 / 4503599627370496"
  unfolding INTROSPECTION_THRESHOLD_def SENSITIVITY_THRESHOLD_def by code_simp+

text \<open>
  C3. A segment is private exactly when one of the indicator patterns is found in it, or
  its introspection score is strictly above 0.7, or its sensitivity score is strictly
  above 0.8; the thresholds are the floats 0.7 and 0.8, and a segment without a match whose
  scores do not exceed them (being equal to them included) is not private.
\<close>

theorem is_likely_private_iff:
  "(is_likely_private segment \<longleftrightarrow>
      (\<exists>pattern \<in> set PRIVACY_INDICATORS. re_search True pattern segment) \<or>
      INTROSPECTION_THRESHOLD < calculate_introspection_score segment \<or>
      SENSITIVITY_THRESHOLD < calculate_sensitivity_score segment)
   \<and> (\<not> (\<exists>pattern \<in> set PRIVACY_INDICATORS. re_search True pattern segment) \<and>
        calculate_introspection_score segment \<le> INTROSPECTION_THRESHOLD \<and>
        calculate_sensitivity_score segment \<le> SENSITIVITY_THRESHOLD
        \<longrightarrow> \<not> is_likely_private segment)
   \<and> INTROSPECTION_THRESHOLD = fl (7 / 10) \<and> SENSITIVITY_THRESHOLD = fl (8 / 10)"
  by (auto simp: is_likely_private_def matches_indicator_iff INTROSPECTION_THRESHOLD_def
      SENSITIVITY_THRESHOLD_def)

lemma worry_scores:
  "\<not> matches_indicator PRIVACY_INDICATORS ''worry a b c d''"
  "calculate_introspection_score ''worry a b c d'' = 0"
  "calculate_sensitivity_score ''worry a b c d'' = SENSITIVITY_THRESHOLD"
  by code_simp+

theorem is_likely_private_iff_witness:
  "calculate_sensitivity_score ''worry a b c d'' = SENSITIVITY_THRESHOLD \<and>
   \<not> is_likely_private ''worry a b c d''"
proof -
  have "0 \<le> INTROSPECTION_THRESHOLD" by (simp add: threshold_values)
  with worry_scores is_likely_private_iff [of "''worry a b c d''"]
  show ?thesis by (simp add: matches_indicator_iff)
qed

text \<open>
  C6. The introspection score is 0.0 for a segment without tokens and otherwise
  \<^verbatim>\<open>min(1.0, (first_person + thinking_verbs + uncertainty) / (word_count * 0.3))\<close> in float
  arithmetic, where \<^verbatim>\<open>word_count\<close> is the number of whitespace-delimited tokens of the raw
  segment; a segment that starts with a character other than whitespace has a token.
\<close>

theorem introspection_score_formula:
  "calculate_introspection_score segment =
     (if word_count segment = 0 then 0
      else min 1 (int_div_float
             (findall_count True FIRST_PERSON segment + findall_count True THINKING_VERBS segment +
              findall_count True UNCERTAINTY segment)
             (int_times_float (word_count segment) (fl (3 / 10)))))
   \<and> word_count segment = length (str_split segment)
   \<and> word_count segment = count_tokens False segment
   \<and> (segment \<noteq> [] \<and> \<not> is_space (hd segment) \<longrightarrow> word_count segment \<noteq> 0)"
proof -
  have a: "segment \<noteq> [] \<and> \<not> is_space (hd segment) \<longrightarrow> word_count segment \<noteq> 0"
    by (cases segment) (simp_all add: word_count_tokens)
  have b: "word_count segment = length (str_split segment)"
    by (simp add: word_count_def)
  have c: "calculate_introspection_score segment =
     (if word_count segment = 0 then 0
      else min 1 (int_div_float
             (findall_count True FIRST_PERSON segment + findall_count True THINKING_VERBS segment +
              findall_count True UNCERTAINTY segment)
             (int_times_float (word_count segment) (fl (3 / 10)))))"
    by (simp add: calculate_introspection_score_def introspection_indicators_def Let_def)
  from a b c word_count_tokens [of segment] show ?thesis by blast
qed

theorem introspection_score_formula_witness:
  "word_count ''I'' \<noteq> 0 \<and> calculate_introspection_score ''I'' = 1"
proof -
  have "int_div_float
             (findall_count True FIRST_PERSON ''I'' + findall_count True THINKING_VERBS ''I'' +
              findall_count True UNCERTAINTY ''I'')
             (int_times_float (word_count ''I'') (fl (3 / 10))) = 7505999378950827 / 2251799813685248"
    by code_simp
  moreover have "word_count ''I'' = 1" by code_simp
  ultimately show ?thesis using introspection_score_formula [of "''I''"] by simp
qed

section \<open>The cipher\<close>

lemma chunks_Nil [simp]: "chunks n [] = []"
  by (simp add: chunks.simps)

lemma chunks_block:
  "length c = n \<Longrightarrow> 0 < n \<Longrightarrow> chunks n (c @ rest) = c # chunks n rest"
  by (subst chunks.simps) auto

lemma chunks_multiple:
  "length xs = n * m \<Longrightarrow> 0 < n \<Longrightarrow>
   length (chunks n xs) = m \<and> (\<forall>b \<in> set (chunks n xs). length b = n) \<and> concat (chunks n xs) = xs"
proof (induction m arbitrary: xs)
  case 0
  then show ?case by simp
next
  case (Suc m)
  from Suc.prems have len: "length (take n xs) = n" "length (drop n xs) = n * m" by simp_all
  have "xs = take n xs @ drop n xs" by simp
  then have "chunks n xs = take n xs # chunks n (drop n xs)"
    using chunks_block [OF len(1) Suc.prems(2), of "drop n xs"] by simp
  with Suc.IH [OF len(2) Suc.prems(2)] len(1) show ?case by simp
qed

lemma pad_length: "length (pkcs7_pad p) = 16 * (length p div 16 + 1)"
  by (simp add: pkcs7_pad_def BLOCK_def Let_def) presburger

lemma pad_shape:
  "\<exists>n. 1 \<le> n \<and> n \<le> 16 \<and> n = 16 - length p mod 16 \<and> pkcs7_pad p = p @ replicate n (of_nat n)"
  by (simp add: pkcs7_pad_def BLOCK_def Let_def)

lemma pad_blocks:
  "length (chunks 16 (pkcs7_pad p)) = length p div 16 + 1"
  "\<forall>b \<in> set (chunks 16 (pkcs7_pad p)). length b = 16"
  "concat (chunks 16 (pkcs7_pad p)) = pkcs7_pad p"
  using chunks_multiple [of "pkcs7_pad p" 16 "length p div 16 + 1"] pad_length [of p]
  by simp_all

lemma xor_bytes_length: "length (xor_bytes a b) = min (length a) (length b)"
  by (simp add: xor_bytes_def)

lemma xor_bytes_cancel: "length a \<le> length b \<Longrightarrow> xor_bytes (xor_bytes a b) b = a"
proof (induction a arbitrary: b)
  case Nil
  then show ?case by (simp add: xor_bytes_def)
next
  case (Cons x xs)
  then obtain y ys where b: "b = y # ys" by (cases b) auto
  with Cons.prems have "length xs \<le> length ys" by simp
  from Cons.IH [OF this] b show ?case by (simp add: xor_bytes_def xor.assoc)
qed

lemma cbc_encrypt_length:
  "block_preserving E \<Longrightarrow> length prev = 16 \<Longrightarrow> \<forall>b \<in> set blocks. length b = 16 \<Longrightarrow>
   length (cbc_encrypt E k prev blocks) = 16 * length blocks"
proof (induction blocks arbitrary: prev)
  case Nil
  then show ?case by simp
next
  case (Cons b bs)
  from Cons.prems have "length (xor_bytes b prev) = BLOCK"
    by (simp add: xor_bytes_length BLOCK_def)
  with Cons.prems(1) have c: "length (E k (xor_bytes b prev)) = 16"
    by (simp add: block_preserving_def BLOCK_def)
  from Cons.IH [OF Cons.prems(1) c] Cons.prems(3) c show ?case by (simp add: Let_def)
qed

lemma urandom_length: "length (fst (urandom n w)) = n"
  by (simp add: urandom_def)

lemma encrypt_bytes:
  "length k \<in> {16, 24, 32} \<Longrightarrow>
   encrypt E k (Bytes p) w = Inr (cbc_blob E k (fst (urandom 16 w)) p, snd (urandom 16 w))"
  by (auto simp: encrypt_def cbc_blob_def BLOCK_def Let_def split: prod.splits)

lemma cbc_blob_length:
  assumes "block_preserving E" and "length iv = 16"
  shows "length (cbc_blob E k iv p) = 16 + 16 * (length p div 16 + 1)"
  using cbc_encrypt_length [OF assms(1) assms(2) pad_blocks(2), of k p] assms(2) pad_blocks(1) [of p]
  by (simp add: cbc_blob_def BLOCK_def)

text \<open>
  C5. With an AES key and a block transformation that returns blocks, \<^verbatim>\<open>encrypt\<close> returns the
  16-byte IV it drew followed by the CBC encryption of the padded payload. The padding
  appends between 1 and 16 bytes (16 when the length is a multiple of 16), so a payload
  of \<open>n\<close> bytes gives a blob of \<open>16 + 16 * (n div 16 + 1)\<close> bytes, a multiple of 16 and at
  least 32.
\<close>

theorem encrypt_blob_layout:
  assumes "length k \<in> {16, 24, 32}" and "block_preserving E"
  shows "encrypt E k (Bytes p) w = Inr (cbc_blob E k (fst (urandom 16 w)) p, snd (urandom 16 w))
    \<and> length (fst (urandom 16 w)) = 16
    \<and> cbc_blob E k (fst (urandom 16 w)) p =
        fst (urandom 16 w) @ cbc_encrypt E k (fst (urandom 16 w)) (chunks 16 (pkcs7_pad p))
    \<and> (\<exists>n. 1 \<le> n \<and> n \<le> 16 \<and> n = 16 - length p mod 16 \<and> pkcs7_pad p = p @ replicate n (of_nat n))
    \<and> length (cbc_blob E k (fst (urandom 16 w)) p) = 16 + 16 * (length p div 16 + 1)
    \<and> 16 dvd length (cbc_blob E k (fst (urandom 16 w)) p)
    \<and> 32 \<le> length (cbc_blob E k (fst (urandom 16 w)) p)"
proof -
  have len: "length (cbc_blob E k (fst (urandom 16 w)) p) = 16 + 16 * (length p div 16 + 1)"
    by (rule cbc_blob_length [OF assms(2) urandom_length])
  have "16 dvd 16 + 16 * (length p div 16 + 1)" by simp
  with len encrypt_bytes [OF assms(1)] pad_shape [of p] urandom_length [of 16 w]
  show ?thesis by (simp add: cbc_blob_def BLOCK_def)
qed

lemma xor_cipher_preserving: "block_preserving xor_cipher"
  by (simp add: block_preserving_def xor_cipher_def xor_bytes_length BLOCK_def)

lemma xor_cipher_inverse: "block_inverse xor_cipher xor_cipher"
  by (simp add: block_inverse_def xor_cipher_def xor_bytes_cancel BLOCK_def)

theorem encrypt_blob_layout_witness:
  "length zero_key \<in> {16, 24, 32} \<and> block_preserving xor_cipher \<and>
   length (cbc_blob xor_cipher zero_key (fst (urandom 16 quiet_world)) [1, 2, 3]) = 32"
proof -
  have k: "length zero_key \<in> {16, 24, 32}" by (simp add: zero_key_def)
  from encrypt_blob_layout [OF k xor_cipher_preserving, of "[1, 2, 3]" quiet_world]
  have "length (cbc_blob xor_cipher zero_key (fst (urandom 16 quiet_world)) [1, 2, 3]) =
        16 + 16 * (length [1, 2, 3 :: byte] div 16 + 1)" by blast
  with k xor_cipher_preserving show ?thesis by simp
qed

lemma cbc_roundtrip:
  "block_preserving E \<Longrightarrow> block_inverse E D \<Longrightarrow> length prev = 16 \<Longrightarrow>
   \<forall>b \<in> set blocks. length b = 16 \<Longrightarrow>
   cbc_decrypt D k prev (chunks 16 (cbc_encrypt E k prev blocks)) = concat blocks"
proof (induction blocks arbitrary: prev)
  case Nil
  then show ?case by simp
next
  case (Cons b bs)
  let ?c = "E k (xor_bytes b prev)"
  from Cons.prems have x: "length (xor_bytes b prev) = BLOCK"
    by (simp add: xor_bytes_length BLOCK_def)
  with Cons.prems(1) have c: "length ?c = 16"
    by (simp add: block_preserving_def BLOCK_def)
  from x Cons.prems(2) have d: "D k ?c = xor_bytes b prev"
    by (simp add: block_inverse_def)
  from Cons.prems have "xor_bytes (xor_bytes b prev) prev = b"
    by (simp add: xor_bytes_cancel)
  with d Cons.IH [OF Cons.prems(1,2) c] Cons.prems(4) chunks_block [OF c, of "cbc_encrypt E k ?c bs"]
  show ?case by (simp add: Let_def)
qed

lemma unpad_pad: "pkcs7_unpad (pkcs7_pad p) = Some p"
proof -
  obtain n where n: "1 \<le> n" "n \<le> 16" "pkcs7_pad p = p @ replicate n (of_nat n)"
    using pad_shape [of p] by blast
  have len: "length (pkcs7_pad p) mod 16 = 0" by (simp add: pad_length)
  from n have u: "unat (of_nat n :: byte) = n" by (simp add: unat_of_nat)
  from n have l: "last (p @ replicate n (of_nat n :: byte)) = of_nat n"
    by (cases n) (simp_all add: last_append)
  from n l u len show ?thesis
    unfolding pkcs7_unpad_def n(3) by (simp add: BLOCK_def Let_def)
qed

lemma decrypt_blob:
  assumes "block_preserving E" and "block_inverse E D" and "length iv = 16"
  shows "decrypt D k (cbc_blob E k iv p) = Some p"
  using cbc_roundtrip [OF assms pad_blocks(2), of k p] assms(3) pad_blocks(3) [of p]
  by (simp add: decrypt_def cbc_blob_def BLOCK_def unpad_pad)

text \<open>
  C8. Decryption as the spec describes it inverts \<^verbatim>\<open>encrypt\<close>: for every payload, the empty
  one and those filling whole blocks included, \<^verbatim>\<open>encrypt\<close> returns a blob and decrypting
  that blob gives the payload back, whenever the inverse block transformation undoes the
  block transformation.
\<close>

theorem decrypt_encrypt:
  assumes "length k \<in> {16, 24, 32}" and "block_preserving E" and "block_inverse E D"
  shows "\<exists>blob w'. encrypt E k (Bytes p) w = Inr (blob, w') \<and> decrypt D k blob = Some p"
  using encrypt_bytes [OF assms(1), of E p w]
    decrypt_blob [OF assms(2,3) urandom_length [of 16 w], of k p]
  by simp

theorem decrypt_encrypt_witness:
  "length zero_key \<in> {16, 24, 32} \<and> block_preserving xor_cipher \<and>
   block_inverse xor_cipher xor_cipher \<and>
   (\<exists>blob w'. encrypt xor_cipher zero_key (Bytes []) quiet_world = Inr (blob, w') \<and>
      decrypt xor_cipher zero_key blob = Some [])"
proof -
  have k: "length zero_key \<in> {16, 24, 32}" by (simp add: zero_key_def)
  from decrypt_encrypt [OF k xor_cipher_preserving xor_cipher_inverse, of "[]" quiet_world]
    k xor_cipher_preserving xor_cipher_inverse
  show ?thesis by blast
qed

section \<open>Encrypting text\<close>

lemma utf8_char_None:
  "utf8_char c = None \<longleftrightarrow> (0xD800 \<le> c \<and> c \<le> 0xDFFF) \<or> 0x110000 \<le> c"
  by (auto simp: utf8_char_def)

lemma utf8_encode_Cons_None:
  "utf8_encode (c # cs) = None \<longleftrightarrow> utf8_char c = None \<or> utf8_encode cs = None"
  by (simp split: option.splits)

lemma utf8_encode_None:
  "utf8_encode s = None \<longleftrightarrow> (\<exists>c \<in> set s. (0xD800 \<le> c \<and> c \<le> 0xDFFF) \<or> 0x110000 \<le> c)"
proof (induction s)
  case Nil
  then show ?case by simp
next
  case (Cons c cs)
  show ?case unfolding utf8_encode_Cons_None utf8_char_None Cons.IH by auto
qed

lemma encrypt_str:
  "encrypt E k (Str s) w =
     (case utf8_encode s of None \<Rightarrow> Inl UnicodeEncodeError | Some payload \<Rightarrow> encrypt E k (Bytes payload) w)"
  by (simp add: encrypt_def split: option.splits)

lemma of_char_bound: "(of_char c :: nat) < 256"
  by (cases c) (simp add: of_char_def horner_sum_eq_sum of_bool_def)

lemma utf8_code_points: "utf8_encode (code_points segment) \<noteq> None"
proof -
  have "\<forall>c \<in> set (code_points segment). c < 256"
    using of_char_bound by (auto simp: code_points_def)
  then show ?thesis unfolding utf8_encode_None by fastforce
qed

text \<open>
  C10 fails as stated: a string holding the lone surrogate U+D800 has no UTF-8 encoding,
  and \<^verbatim>\<open>encrypt\<close> raises \<^verbatim>\<open>UnicodeEncodeError\<close> on it.
\<close>

theorem surrogate_counterexample:
  "encrypt xor_cipher zero_key (Str [55296]) quiet_world = Inl UnicodeEncodeError"
  by (simp add: encrypt_str utf8_char_def)

text \<open>
  C10, amended. A string has a UTF-8 encoding exactly when it holds no surrogate code
  point. On such a string \<^verbatim>\<open>encrypt\<close> equals \<^verbatim>\<open>encrypt\<close> applied to the encoding, in the same
  world and so under the same IV, and with an AES key it returns a blob; on any other
  string it raises \<^verbatim>\<open>UnicodeEncodeError\<close>. The segments that the orchestrator passes, text over
  the code points 0 to 255, always have an encoding.
\<close>

theorem encrypt_text:
  "(utf8_encode s = None \<longleftrightarrow> (\<exists>c \<in> set s. (0xD800 \<le> c \<and> c \<le> 0xDFFF) \<or> 0x110000 \<le> c))
   \<and> (utf8_encode s = None \<longrightarrow> encrypt E k (Str s) w = Inl UnicodeEncodeError)
   \<and> (\<forall>payload. utf8_encode s = Some payload \<longrightarrow>
         encrypt E k (Str s) w = encrypt E k (Bytes payload) w \<and>
         (length k \<in> {16, 24, 32} \<longrightarrow>
            encrypt E k (Str s) w = Inr (cbc_blob E k (fst (urandom 16 w)) payload, snd (urandom 16 w))))
   \<and> utf8_encode (code_points segment) \<noteq> None"
  using utf8_encode_None [of s] utf8_code_points [of segment] encrypt_bytes [of k E _ w]
  by (auto simp: encrypt_str)

lemma utf8_example: "utf8_encode [72, 233, 8364] = Some [72, 195, 169, 226, 130, 172]"
  by (simp add: utf8_char_def)

theorem encrypt_text_witness:
  "utf8_encode [72, 233, 8364] = Some [72, 195, 169, 226, 130, 172] \<and>
   length zero_key \<in> {16, 24, 32} \<and>
   encrypt xor_cipher zero_key (Str [72, 233, 8364]) quiet_world =
     encrypt xor_cipher zero_key (Bytes [72, 195, 169, 226, 130, 172]) quiet_world \<and>
   utf8_encode [55296] = None \<and>
   encrypt xor_cipher zero_key (Str [55296]) quiet_world = Inl UnicodeEncodeError"
proof -
  have k: "length zero_key \<in> {16, 24, 32}" by (simp add: zero_key_def)
  have n: "utf8_encode [55296] = None" by (simp add: utf8_char_def)
  from encrypt_text [of "[72, 233, 8364]" xor_cipher zero_key quiet_world] utf8_example
  have a: "encrypt xor_cipher zero_key (Str [72, 233, 8364]) quiet_world =
     encrypt xor_cipher zero_key (Bytes [72, 195, 169, 226, 130, 172]) quiet_world" by blast
  from encrypt_text [of "[55296]" xor_cipher zero_key quiet_world] n
  have b: "encrypt xor_cipher zero_key (Str [55296]) quiet_world = Inl UnicodeEncodeError" by blast
  from a b k n utf8_example show ?thesis by blast
qed

section \<open>The key provider\<close>

lemma b64_alphabet:
  "map b64_char [0..<64] = ''ABCDEFGHIJKLMNOPQRSTUVWXYZabcdefghijklmnopqrstuvwxyz0123456789+/''"
  by code_simp

lemma b64_value_char: "n < 64 \<Longrightarrow> b64_value (b64_char n) = Some n"
  by (auto simp: b64_value_def b64_char_def Let_def)

lemma b64_value_plain:
  assumes "b64_value c = Some n"
  shows "c \<noteq> CHR ''=''" and "(of_char c :: nat) < 128" and "\<not> is_space c"
proof -
  show "c \<noteq> CHR ''=''" using assms by (auto simp: b64_value_def)
  show "(of_char c :: nat) < 128" using assms by (simp add: b64_value_def Let_def split: if_splits)
  show "\<not> is_space c" using assms by (simp add: b64_value_def is_space_def Let_def split: if_splits)
qed

lemma b64_char_plain:
  assumes "n < 64"
  shows "b64_char n \<noteq> CHR ''=''" and "(of_char (b64_char n) :: nat) < 128"
    and "\<not> is_space (b64_char n)"
  using b64_value_plain [OF b64_value_char [OF assms]] by simp_all

lemma a2b_start:
  "n < 64 \<Longrightarrow> a2b_base64 0 l pads (b64_char n # cs) = a2b_base64 1 n 0 cs"
  by (simp add: b64_value_char b64_char_plain)

lemma a2b_second:
  "n < 64 \<Longrightarrow> a2b_base64 1 l pads (b64_char n # cs) =
     emit (l * 4 + n div 16) (a2b_base64 2 (n mod 16) 0 cs)"
  by (simp add: b64_value_char b64_char_plain)

lemma a2b_third:
  "n < 64 \<Longrightarrow> a2b_base64 2 l pads (b64_char n # cs) =
     emit (l * 16 + n div 4) (a2b_base64 3 (n mod 4) 0 cs)"
  by (simp add: b64_value_char b64_char_plain)

lemma a2b_fourth:
  "n < 64 \<Longrightarrow> a2b_base64 3 l pads (b64_char n # cs) =
     emit (l * 64 + n) (a2b_base64 0 0 0 cs)"
  by (simp add: b64_value_char b64_char_plain)

lemma a2b_pads:
  "a2b_base64 2 l 0 [CHR ''='', CHR ''=''] = Inr []"
  "a2b_base64 3 l 0 [CHR ''=''] = Inr []"
  by simp_all

lemma sextets_bounds:
  fixes a b c :: nat
  assumes "a < 256" "b < 256" "c < 256"
  shows "a div 4 < 64" "a mod 4 * 16 + b div 16 < 64" "b mod 16 * 4 + c div 64 < 64" "c mod 64 < 64"
    "a mod 4 * 16 < 64" "b mod 16 * 4 < 64"
proof -
  from assms have d: "a div 4 < 64" "b div 16 < 16" "c div 64 < 4"
    by (simp_all add: div_less_iff_less_mult)
  have m: "a mod 4 < 4" "b mod 16 < 16" "c mod 64 < 64" by simp_all
  show "a div 4 < 64" by (rule d)
  show "c mod 64 < 64" by (rule m)
  from d m show "a mod 4 * 16 + b div 16 < 64" by linarith
  from d m show "b mod 16 * 4 + c div 64 < 64" by linarith
  from m show "a mod 4 * 16 < 64" by linarith
  from m show "b mod 16 * 4 < 64" by linarith
qed

lemma div_add_small: "x < n \<Longrightarrow> (m * n + x) div n = (m :: nat)"
  by simp

lemma mod_add_small: "x < n \<Longrightarrow> (m * n + x) mod n = (x :: nat)"
  by simp

lemma sextets_bytes:
  fixes a b c :: nat
  assumes "a < 256" "b < 256" "c < 256"
  shows "a div 4 * 4 + (a mod 4 * 16 + b div 16) div 16 = a"
    "(a mod 4 * 16 + b div 16) mod 16 * 16 + (b mod 16 * 4 + c div 64) div 4 = b"
    "(b mod 16 * 4 + c div 64) mod 4 * 64 + c mod 64 = c"
proof -
  from assms have d: "b div 16 < 16" "c div 64 < 4"
    by (simp_all add: div_less_iff_less_mult)
  from d show "a div 4 * 4 + (a mod 4 * 16 + b div 16) div 16 = a"
    by (simp add: div_add_small)
  from d show "(a mod 4 * 16 + b div 16) mod 16 * 16 + (b mod 16 * 4 + c div 64) div 4 = b"
    by (simp add: div_add_small mod_add_small)
  from d show "(b mod 16 * 4 + c div 64) mod 4 * 64 + c mod 64 = c"
    by (simp add: mod_add_small)
qed

lemma unat_byte: "unat (x :: byte) < 256"
  using unsigned_less [of x] by simp

lemma emit_Inr: "emit n (Inr bs) = Inr (of_nat n # bs)"
  by (simp add: emit_def)

lemma a2b_quad:
  assumes "v0 < 64" "v1 < 64" "v2 < 64" "v3 < 64"
  shows "a2b_base64 0 0 0 (b64_char v0 # b64_char v1 # b64_char v2 # b64_char v3 # cs) =
     emit (v0 * 4 + v1 div 16) (emit (v1 mod 16 * 16 + v2 div 4)
       (emit (v2 mod 4 * 64 + v3) (a2b_base64 0 0 0 cs)))"
  by (simp only: a2b_start [OF assms(1)] a2b_second [OF assms(2)] a2b_third [OF assms(3)]
      a2b_fourth [OF assms(4)])

lemma a2b_triple:
  assumes "v0 < 64" "v1 < 64" "v2 < 64"
  shows "a2b_base64 0 0 0 [b64_char v0, b64_char v1, b64_char v2, CHR ''=''] =
     emit (v0 * 4 + v1 div 16) (emit (v1 mod 16 * 16 + v2 div 4) (Inr []))"
  by (simp only: a2b_start [OF assms(1)] a2b_second [OF assms(2)] a2b_third [OF assms(3)]
      a2b_pads)

lemma a2b_pair:
  assumes "v0 < 64" "v1 < 64"
  shows "a2b_base64 0 0 0 [b64_char v0, b64_char v1, CHR ''='', CHR ''=''] =
     emit (v0 * 4 + v1 div 16) (Inr [])"
  by (simp only: a2b_start [OF assms(1)] a2b_second [OF assms(2)] a2b_pads)

lemma a2b_b64encode: "a2b_base64 0 0 0 (b64encode bs) = Inr bs"
proof (induction bs rule: b64encode.induct)
  case 1
  then show ?case by simp
next
  case (2 a)
  note n = sextets_bounds [OF unat_byte [of a] unat_byte [of 0] unat_byte [of 0]]
  note e = sextets_bytes [OF unat_byte [of a] unat_byte [of 0] unat_byte [of 0]]
  have step: "a2b_base64 0 0 0 (b64encode [a]) =
      emit (unat a div 4 * 4 + (unat a mod 4 * 16) div 16) (Inr [])"
    unfolding b64encode.simps by (rule a2b_pair [OF n(1) n(5)])
  have x: "unat a div 4 * 4 + (unat a mod 4 * 16) div 16 = unat a"
    using e(1) by simp
  show ?case unfolding step x emit_Inr by simp
next
  case (3 a b)
  note n = sextets_bounds [OF unat_byte [of a] unat_byte [of b] unat_byte [of 0]]
  note e = sextets_bytes [OF unat_byte [of a] unat_byte [of b] unat_byte [of 0]]
  have step: "a2b_base64 0 0 0 (b64encode [a, b]) =
      emit (unat a div 4 * 4 + (unat a mod 4 * 16 + unat b div 16) div 16)
        (emit ((unat a mod 4 * 16 + unat b div 16) mod 16 * 16 + (unat b mod 16 * 4) div 4) (Inr []))"
    unfolding b64encode.simps by (rule a2b_triple [OF n(1) n(2) n(6)])
  have y: "(unat a mod 4 * 16 + unat b div 16) mod 16 * 16 + (unat b mod 16 * 4) div 4 = unat b"
    using e(2) by simp
  show ?case unfolding step e(1) y emit_Inr by simp
next
  case (4 a b c rest)
  note n = sextets_bounds [OF unat_byte [of a] unat_byte [of b] unat_byte [of c]]
  note e = sextets_bytes [OF unat_byte [of a] unat_byte [of b] unat_byte [of c]]
  have "a2b_base64 0 0 0 (b64encode (a # b # c # rest)) =
      emit (unat a div 4 * 4 + (unat a mod 4 * 16 + unat b div 16) div 16)
        (emit ((unat a mod 4 * 16 + unat b div 16) mod 16 * 16 + (unat b mod 16 * 4 + unat c div 64) div 4)
          (emit ((unat b mod 16 * 4 + unat c div 64) mod 4 * 64 + unat c mod 64)
            (a2b_base64 0 0 0 (b64encode rest))))"
    unfolding b64encode.simps append_Cons append_Nil by (rule a2b_quad [OF n(1) n(2) n(3) n(4)])
  then show ?case unfolding e "4.IH" emit_Inr by (simp del: a2b_base64.simps)
qed

lemma pad_char_plain: "(of_char (CHR ''='') :: nat) < 128" "\<not> is_space (CHR ''='')"
  by (simp_all add: is_space_def)

lemma b64encode_chars:
  "\<forall>c \<in> set (b64encode bs). (of_char c :: nat) < 128 \<and> \<not> is_space c"
proof (induction bs rule: b64encode.induct)
  case 1
  then show ?case by simp
next
  case (2 a)
  note s = sextets_bounds [OF unat_byte [of a] unat_byte [of 0] unat_byte [of 0], simplified]
    sextets_bytes [OF unat_byte [of a] unat_byte [of 0] unat_byte [of 0], simplified]
  show ?case by (simp add: b64_char_plain s pad_char_plain)
next
  case (3 a b)
  note s = sextets_bounds [OF unat_byte [of a] unat_byte [of b] unat_byte [of 0], simplified]
    sextets_bytes [OF unat_byte [of a] unat_byte [of b] unat_byte [of 0], simplified]
  show ?case by (simp add: b64_char_plain s pad_char_plain)
next
  case (4 a b c rest)
  note s = sextets_bounds [OF unat_byte [of a] unat_byte [of b] unat_byte [of c]]
    sextets_bytes [OF unat_byte [of a] unat_byte [of b] unat_byte [of c]]
  from "4.IH" show ?case by (simp add: b64_char_plain s)
qed

lemma dropWhile_none: "\<forall>c \<in> set s. \<not> P c \<Longrightarrow> dropWhile P s = s"
  by (cases s) simp_all

lemma strip_no_space: "\<forall>c \<in> set s. \<not> is_space c \<Longrightarrow> strip s = s"
  by (simp add: strip_def dropWhile_none)

lemma b64_roundtrip: "b64decode (strip (b64encode bs)) = Inr bs"
proof -
  from b64encode_chars [of bs] have "strip (b64encode bs) = b64encode bs"
    by (simp add: strip_no_space)
  moreover from b64encode_chars [of bs] have "\<not> list_ex (\<lambda>c. 128 \<le> (of_char c :: nat)) (b64encode bs)"
    by (auto simp: list_ex_iff)
  ultimately show ?thesis by (simp add: b64decode_def a2b_b64encode)
qed

lemma reload_created_key:
  assumes "key_file w = None" and "load_or_create_key w = Inr (k, w')"
  shows "load_or_create_key w' = Inr (k, w')"
proof -
  from assms have "key_file w' = Some (b64encode k)"
    by (auto simp: load_or_create_key_def urandom_def Let_def)
  then show ?thesis by (simp add: load_or_create_key_def b64_roundtrip)
qed

lemma short_key_decoded: "b64decode (strip ''AAAA'') = Inr [0, 0, 0]"
  by code_simp

text \<open>
  C1 fails as stated: a key file holding \<^verbatim>\<open>AAAA\<close> decodes to three bytes, and the key
  provider returns them as the key.
\<close>

theorem short_key_counterexample:
  "key_file short_key_world = Some ''AAAA'' \<and>
   load_or_create_key short_key_world = Inr ([0, 0, 0], short_key_world) \<and>
   length [0, 0, 0 :: byte] \<noteq> KEY_SIZE"
  by (simp add: load_or_create_key_def short_key_world_def short_key_decoded KEY_SIZE_def)

text \<open>
  C1, amended. If the key file exists, the key provider returns the base64 decoding of
  its stripped contents, of whatever length, and fails exactly when the decoding fails;
  the length is not checked. A key that the provider creates has \<open>KEY_SIZE\<close> bytes, is
  written to the key file in base64, and is the key that the next start loads; more
  generally the base64 text of any byte string decodes to that byte string.
\<close>

theorem load_existing_key:
  "(key_file w = Some content \<longrightarrow>
      load_or_create_key w =
        (case b64decode (strip content) of Inl e \<Rightarrow> Inl e | Inr k \<Rightarrow> Inr (k, w)))
   \<and> (key_file w = None \<longrightarrow>
      (\<exists>k w'. load_or_create_key w = Inr (k, w') \<and> length k = KEY_SIZE \<and>
         key_file w' = Some (b64encode k) \<and> load_or_create_key w' = Inr (k, w')))
   \<and> b64decode (strip (b64encode bs)) = Inr bs"
proof (intro conjI impI)
  assume "key_file w = Some content"
  then show "load_or_create_key w =
        (case b64decode (strip content) of Inl e \<Rightarrow> Inl e | Inr k \<Rightarrow> Inr (k, w))"
    by (simp add: load_or_create_key_def)
next
  assume n: "key_file w = None"
  then obtain k w' where c: "load_or_create_key w = Inr (k, w')" "length k = KEY_SIZE"
    "key_file w' = Some (b64encode k)"
    by (simp add: load_or_create_key_def urandom_def Let_def)
  from reload_created_key [OF n c(1)] c
  show "\<exists>k w'. load_or_create_key w = Inr (k, w') \<and> length k = KEY_SIZE \<and>
         key_file w' = Some (b64encode k) \<and> load_or_create_key w' = Inr (k, w')"
    by blast
next
  show "b64decode (strip (b64encode bs)) = Inr bs" by (rule b64_roundtrip)
qed

theorem load_existing_key_witness:
  "key_file short_key_world = Some ''AAAA'' \<and>
   load_or_create_key short_key_world =
     (case b64decode (strip ''AAAA'') of Inl e \<Rightarrow> Inl e | Inr k \<Rightarrow> Inr (k, short_key_world)) \<and>
   key_file quiet_world = None \<and>
   (\<exists>k w'. load_or_create_key quiet_world = Inr (k, w') \<and> length k = KEY_SIZE \<and>
      load_or_create_key w' = Inr (k, w'))"
proof -
  have a: "key_file short_key_world = Some ''AAAA''"
    by (simp add: short_key_world_def)
  have b: "key_file quiet_world = None"
    by (simp add: quiet_world_def)
  from load_existing_key [of short_key_world "''AAAA''"] a
  have c: "load_or_create_key short_key_world =
     (case b64decode (strip ''AAAA'') of Inl e \<Rightarrow> Inl e | Inr k \<Rightarrow> Inr (k, short_key_world))"
    by blast
  from load_existing_key [of quiet_world "[]"] b
  have d: "\<exists>k w'. load_or_create_key quiet_world = Inr (k, w') \<and> length k = KEY_SIZE \<and>
      load_or_create_key w' = Inr (k, w')"
    by blast
  show ?thesis by (intro conjI) (rule a b c d)+
qed

section \<open>The store\<close>

lemma digit_in: "n < 10 \<Longrightarrow> digit n \<in> set ''0123456789''"
  unfolding digit_def by (rule nth_mem) simp

lemma decimal_digits: "set (decimal n) \<subseteq> set ''0123456789''"
proof (induction n rule: decimal.induct)
  case (1 n)
  show ?case
  proof (cases "n < 10")
    case True
    with digit_in [of n] show ?thesis by (subst decimal.simps) simp
  next
    case False
    have "n mod 10 < 10" by simp
    from digit_in [OF this] "1.IH" [OF False] False show ?thesis
      by (subst decimal.simps) simp
  qed
qed

lemma decimal_length1: "n < 10 \<Longrightarrow> length (decimal n) = 1"
  by (subst decimal.simps) simp

lemma decimal_length2: "10 \<le> n \<Longrightarrow> n < 100 \<Longrightarrow> length (decimal n) = 2"
  by (subst decimal.simps) (simp add: decimal_length1)

lemma decimal_length3: "100 \<le> n \<Longrightarrow> n < 1000 \<Longrightarrow> length (decimal n) = 3"
  by (subst decimal.simps) (simp add: decimal_length2)

lemma decimal_length4: "1000 \<le> n \<Longrightarrow> n < 10000 \<Longrightarrow> length (decimal n) = 4"
  by (subst decimal.simps) (simp add: decimal_length3)

lemma two_digits_length: "n < 100 \<Longrightarrow> length (two_digits n) = 2"
  by (cases "n < 10") (simp_all add: two_digits_def decimal_length1 decimal_length2)

lemma two_digits_digits: "set (two_digits n) \<subseteq> set ''0123456789''"
  using decimal_digits [of n] by (auto simp: two_digits_def)

lemma strftime_digits: "set (strftime t) \<subseteq> set ''0123456789''"
  using decimal_digits [of "year t"] two_digits_digits [of "month t"] two_digits_digits [of "day t"]
    two_digits_digits [of "hour t"] two_digits_digits [of "minute t"] two_digits_digits [of "second t"]
  unfolding strftime_def set_append by blast

lemma strftime_length: "four_digit_year t \<Longrightarrow> length (strftime t) = 14"
  by (simp add: strftime_def four_digit_year_def decimal_length4 two_digits_length)

lemma save_result:
  "save_encrypted_thought blob w =
     (''private/private_thought_'' @ strftime (clock w (reads w)) @ ''.enc'',
      w\<lparr>reads := reads w + 1,
        files := (''private/private_thought_'' @ strftime (clock w (reads w)) @ ''.enc'', blob) # files w\<rparr>)"
  by (simp add: save_encrypted_thought_def generate_filename_def datetime_now_def PRIVATE_DIR_def
      Let_def)

lemma enc_in_private_intro:
  "CHR ''/'' \<notin> set pre \<Longrightarrow> enc_in_private (''private/'' @ pre @ ''.enc'')"
  by (simp add: enc_in_private_def PRIVATE_DIR_def Let_def)

lemma stamp_path_listed:
  assumes "set stamp \<subseteq> set ''0123456789''"
  shows "enc_in_private (''private/private_thought_'' @ stamp @ ''.enc'')"
proof -
  from assms have "CHR ''/'' \<notin> set (''private_thought_'' @ stamp)" by auto
  from enc_in_private_intro [OF this] show ?thesis by simp
qed

text \<open>
  C9. \<^verbatim>\<open>save_encrypted_thought\<close> returns the path
  \<^verbatim>\<open>private/private_thought_<stamp>.enc\<close>, where the stamp is the clock reading printed by
  \<^verbatim>\<open>strftime\<close>: digits only, and 14 of them when the year has four digits. The blob is the
  content of that path afterwards, whatever was there before, no other path changes, and
  the listing of the saved files contains the path.
\<close>

theorem save_then_list:
  "fst (save_encrypted_thought blob w) =
     PRIVATE_DIR @ ''/private_thought_'' @ strftime (clock w (reads w)) @ ''.enc''
   \<and> set (strftime (clock w (reads w))) \<subseteq> set ''0123456789''
   \<and> (four_digit_year (clock w (reads w)) \<longrightarrow> length (strftime (clock w (reads w))) = 14)
   \<and> files (snd (save_encrypted_thought blob w)) = (fst (save_encrypted_thought blob w), blob) # files w
   \<and> map_of (files (snd (save_encrypted_thought blob w))) (fst (save_encrypted_thought blob w)) = Some blob
   \<and> (\<forall>p. p \<noteq> fst (save_encrypted_thought blob w) \<longrightarrow>
         map_of (files (snd (save_encrypted_thought blob w))) p = map_of (files w) p)
   \<and> fst (save_encrypted_thought blob w) \<in> set (get_saved_files (snd (save_encrypted_thought blob w)))"
  using stamp_path_listed [OF strftime_digits, of "clock w (reads w)"] strftime_digits [of "clock w (reads w)"]
  by (simp add: save_result get_saved_files_def strftime_length PRIVATE_DIR_def)

lemma noon_stamp: "strftime noon = ''20240517120000''"
  by code_simp

theorem save_then_list_witness:
  "four_digit_year (clock quiet_world (reads quiet_world)) \<and>
   fst (save_encrypted_thought [1, 2, 3] quiet_world) = ''private/private_thought_20240517120000.enc'' \<and>
   length (strftime (clock quiet_world (reads quiet_world))) = 14 \<and>
   fst (save_encrypted_thought [1, 2, 3] quiet_world)
     \<in> set (get_saved_files (snd (save_encrypted_thought [1, 2, 3] quiet_world)))"
proof -
  have c: "clock quiet_world (reads quiet_world) = noon" by (simp add: quiet_world_def)
  have y: "four_digit_year (clock quiet_world (reads quiet_world))"
    unfolding c by (simp add: four_digit_year_def noon_def)
  note s = save_then_list [of "[1, 2, 3]" quiet_world]
  from s have "fst (save_encrypted_thought [1, 2, 3] quiet_world) =
     PRIVATE_DIR @ ''/private_thought_'' @ strftime (clock quiet_world (reads quiet_world)) @ ''.enc''"
    by blast
  then have p: "fst (save_encrypted_thought [1, 2, 3] quiet_world) =
     ''private/private_thought_20240517120000.enc''"
    by (simp add: c noon_stamp PRIVATE_DIR_def)
  from s y have l: "length (strftime (clock quiet_world (reads quiet_world))) = 14" by blast
  from s have "fst (save_encrypted_thought [1, 2, 3] quiet_world)
     \<in> set (get_saved_files (snd (save_encrypted_thought [1, 2, 3] quiet_world)))" by blast
  with y p l show ?thesis by blast
qed

section \<open>The orchestrator\<close>


























end
